theory Spec2Isabelle
  imports Main "HOL-Library.Word"
begin

unbundle bit_operations_syntax

section \<open>The watchserverfile server as an interleaving of its goroutines\<close>

text \<open>
  The package runs four kinds of goroutine over one \<^verbatim>\<open>Server\<close> value:
  the caller of \<^verbatim>\<open>ListenAndServe\<close> (which continues into \<^verbatim>\<open>listenAndServe\<close>),
  the function literal started by \<^verbatim>\<open>ListenAndServe\<close> (the reload loop),
  \<^verbatim>\<open>watchFile\<close>, and one goroutine per \<^verbatim>\<open>ws.Serve(l)\<close>.
  Each goroutine is a program counter; one \<open>action\<close> executes one statement of one
  goroutine, or feeds it one answer of the outside world (the result of
  \<^verbatim>\<open>net.Listen\<close>, a message of the fsnotify watcher, a statement of the
  caller-supplied \<^verbatim>\<open>reloadFunc\<close>). A statement that blocks has no successor state.
\<close>

subsection \<open>Data\<close>

type_synonym error = string
  \<comment> \<open>a non-nil Go \<^verbatim>\<open>error\<close>, by its message\<close>

type_synonym handler = nat
  \<comment> \<open>a non-nil \<^verbatim>\<open>http.Handler\<close>, by identity; \<open>None\<close> is \<^verbatim>\<open>nil\<close>\<close>

type_synonym listener = nat
  \<comment> \<open>the \<^verbatim>\<open>net.Listener\<close> returned by a successful \<^verbatim>\<open>net.Listen\<close>, by identity\<close>

type_synonym Op = "32 word"
  \<comment> \<open>\<^verbatim>\<open>fsnotify.Op\<close> is a \<^verbatim>\<open>uint32\<close> bit mask\<close>

text \<open>The constants of \<^verbatim>\<open>gopkg.in/fsnotify.v1\<close>: \<^verbatim>\<open>Create Op = 1 << iota\<close> and so on.\<close>

definition Create :: Op where "Create = 1"
definition Write :: Op where "Write = 2"
definition Remove :: Op where "Remove = 4"
definition Rename :: Op where "Rename = 8"
definition Chmod :: Op where "Chmod = 16"

text \<open>What the \<^verbatim>\<open>select\<close> of \<^verbatim>\<open>watchFile\<close> can receive: an
  \<^verbatim>\<open>fsnotify.Event{Name, Op}\<close> or an error.\<close>

datatype watcher_msg = Event Op string | Error error

datatype listen_result = ListenOk listener | ListenErr error

datatype thread = T_Main | T_Coord

text \<open>Program counters. \<open>M_\<close>: the goroutine that calls \<^verbatim>\<open>ListenAndServe\<close>;
  \<open>C_\<close>: the reload loop (lines 40 to 47); \<open>W_\<close>: \<^verbatim>\<open>watchFile\<close>.\<close>

datatype main_pc =
    M_Idle              \<comment> \<open>\<^verbatim>\<open>ListenAndServe\<close> not called yet\<close>
  | M_Go                \<comment> \<open>at line 40, \<^verbatim>\<open>go func() {...}()\<close>\<close>
  | M_Call              \<comment> \<open>at line 49, \<^verbatim>\<open>ws.reloadFunc(ws)\<close>\<close>
  | M_InCallback        \<comment> \<open>inside that call\<close>
  | M_Listen            \<comment> \<open>at lines 59 to 63, \<^verbatim>\<open>net.Listen("tcp", addr)\<close>\<close>
  | M_Spawn listener    \<comment> \<open>at lines 68 to 73, top of the \<^verbatim>\<open>for\<close> loop\<close>
  | M_Recv listener     \<comment> \<open>at line 74, \<^verbatim>\<open><-ws.reloadServe\<close>\<close>
  | M_Returned error    \<comment> \<open>\<^verbatim>\<open>ListenAndServe\<close> has returned this error\<close>

datatype coord_pc =
    C_Idle              \<comment> \<open>goroutine not started\<close>
  | C_Clear             \<comment> \<open>at line 43, \<^verbatim>\<open>ws.Handler(nil)\<close>\<close>
  | C_Call              \<comment> \<open>at line 44, \<^verbatim>\<open>ws.reloadFunc(ws)\<close>\<close>
  | C_InCallback        \<comment> \<open>inside that call\<close>
  | C_Send              \<comment> \<open>at line 45, \<^verbatim>\<open>ws.reloadServe <- struct{}{}\<close>\<close>

datatype watch_pc =
    W_Select            \<comment> \<open>at line 82, the \<^verbatim>\<open>select\<close>\<close>
  | W_Send string       \<comment> \<open>at line 86, \<^verbatim>\<open>ws.ReloadFile <- event.Name\<close>\<close>

text \<open>The observable history, oldest event first.\<close>

datatype event =
    E_Call string                       \<comment> \<open>\<^verbatim>\<open>ListenAndServe\<close> called with this address\<close>
  | E_Clear                             \<comment> \<open>line 43 executed\<close>
  | E_Invoke thread                     \<comment> \<open>\<^verbatim>\<open>reloadFunc\<close> entered by this goroutine\<close>
  | E_Install thread handler            \<comment> \<open>the callback called \<^verbatim>\<open>ws.Handler(h)\<close>\<close>
  | E_FileRecv thread string            \<comment> \<open>the callback received from \<^verbatim>\<open>ws.ReloadFile\<close>\<close>
  | E_Return thread                     \<comment> \<open>\<^verbatim>\<open>reloadFunc\<close> returned to this goroutine\<close>
  | E_Signal                            \<comment> \<open>the send of line 45 completed\<close>
  | E_Resume                            \<comment> \<open>the receive of line 74 completed\<close>
  | E_Listen string listen_result       \<comment> \<open>\<^verbatim>\<open>net.Listen("tcp", addr)\<close> and its result\<close>
  | E_Spawn listener "handler option"   \<comment> \<open>\<^verbatim>\<open>go ws.Serve(l)\<close>, and the handler field then\<close>
  | E_Serve nat "handler option"        \<comment> \<open>serve goroutine \<open>k\<close> dispatched a request to this handler\<close>
  | E_Write string                      \<comment> \<open>\<^verbatim>\<open>watchFile\<close> took a write event for this name\<close>
  | E_Change string                     \<comment> \<open>the send of line 86 completed\<close>

text \<open>
  The \<^verbatim>\<open>Server\<close> struct with the state of the goroutines around it. A Go channel
  is the list of values in its buffer, oldest first; both channels are made with
  capacity 1 in \<^verbatim>\<open>New\<close>. The field \<^verbatim>\<open>reloadFunc\<close> is the caller's function and
  is not data: its statements are actions (see \<open>reloadFunc_step\<close>).
\<close>

record state =
  ReloadFile :: "string list"          \<comment> \<open>\<^verbatim>\<open>chan string\<close>\<close>
  reloadServe :: "unit list"           \<comment> \<open>\<^verbatim>\<open>chan struct{}\<close>\<close>
  Addr :: string                       \<comment> \<open>\<^verbatim>\<open>http.Server.Addr\<close>\<close>
  Handler :: "handler option"          \<comment> \<open>\<^verbatim>\<open>http.Server.Handler\<close>\<close>
  mpc :: main_pc
  cpc :: coord_pc
  wpc :: watch_pc
  serving :: "listener list"           \<comment> \<open>the listener of every running \<^verbatim>\<open>ws.Serve(l)\<close>\<close>
  deferred :: "listener list"          \<comment> \<open>the pending \<^verbatim>\<open>defer l.Close()\<close> calls of \<^verbatim>\<open>listenAndServe\<close>\<close>
  closed :: "listener list"            \<comment> \<open>listeners on which \<^verbatim>\<open>Close\<close> has run\<close>
  logs :: "string list"                \<comment> \<open>lines written by \<^verbatim>\<open>log.Println\<close>\<close>
  trace :: "event list"

definition chan_cap :: nat where
  "chan_cap = 1"

text \<open>A send on a buffered channel proceeds when the buffer has room and blocks
  otherwise; a receive proceeds when the buffer is not empty.\<close>

definition chan_send :: "'a \<Rightarrow> 'a list \<Rightarrow> 'a list option" where
  "chan_send v buf = (if length buf < chan_cap then Some (buf @ [v]) else None)"

definition chan_recv :: "'a list \<Rightarrow> ('a \<times> 'a list) option" where
  "chan_recv buf = (case buf of [] \<Rightarrow> None | v # rest \<Rightarrow> Some (v, rest))"

definition emit :: "event \<Rightarrow> state \<Rightarrow> state" where
  "emit e s = s\<lparr>trace := trace s @ [e]\<rparr>"

definition println :: "string \<Rightarrow> state \<Rightarrow> state" where
  "println l s = s\<lparr>logs := logs s @ [l]\<rparr>"

subsection \<open>\<^verbatim>\<open>New\<close>\<close>

text \<open>
  \<^verbatim>\<open>fsnotify.NewWatcher()\<close> and \<^verbatim>\<open>watcher.Add(filename)\<close> answer with an error or
  not; on an error \<^verbatim>\<open>log.Fatal\<close> ends the process and \<^verbatim>\<open>New\<close> does not return.
  Otherwise the file name is sent on the fresh channel and \<^verbatim>\<open>watchFile\<close> is started.
\<close>

datatype stop =
    Fatal string        \<comment> \<open>\<^verbatim>\<open>log.Fatal\<close> with this message\<close>
  | Blocked             \<comment> \<open>a channel operation that never proceeds\<close>

text \<open>The server \<^verbatim>\<open>New\<close> returns, with \<^verbatim>\<open>watchFile\<close> started and \<open>buf\<close> the buffer
  of \<^verbatim>\<open>ReloadFile\<close>; every other field has Go's zero value.\<close>

definition new_server :: "string list \<Rightarrow> state" where
  "new_server buf =
     \<lparr>ReloadFile = buf, reloadServe = [], Addr = [], Handler = None,
      mpc = M_Idle, cpc = C_Idle, wpc = W_Select,
      serving = [], deferred = [], closed = [], logs = [], trace = []\<rparr>"

definition New :: "string \<Rightarrow> error option \<Rightarrow> error option \<Rightarrow> stop + state" where
  "New filename newWatcher_err add_err =
     (case newWatcher_err of
        Some e \<Rightarrow> Inl (Fatal (''Watcher: '' @ e))
      | None \<Rightarrow>
         (case add_err of
            Some e \<Rightarrow> Inl (Fatal (''New WatcherServer: '' @ e))
          | None \<Rightarrow>
             (case chan_send filename [] of
                None \<Rightarrow> Inl Blocked
              | Some buf \<Rightarrow> Inr (new_server buf))))"

subsection \<open>\<^verbatim>\<open>ListenAndServe\<close> and \<^verbatim>\<open>listenAndServe\<close>\<close>

text \<open>The method \<^verbatim>\<open>Handler\<close> of line 27 (the record field has the name already).\<close>

definition set_Handler :: "handler option \<Rightarrow> state \<Rightarrow> state" where
  "set_Handler h s = s\<lparr>Handler := h\<rparr>"

text \<open>Lines 59 to 62.\<close>

definition listen_addr :: "string \<Rightarrow> string" where
  "listen_addr a = (if a = [] then '':http'' else a)"

text \<open>Lines 36 and 37: the call stores its arguments.\<close>

definition ListenAndServe_call :: "string \<Rightarrow> state \<Rightarrow> state option" where
  "ListenAndServe_call address s =
     (case mpc s of
        M_Idle \<Rightarrow> Some (emit (E_Call address) (s\<lparr>Addr := address, mpc := M_Go\<rparr>))
      | _ \<Rightarrow> None)"

text \<open>
  The next statement of the calling goroutine. Line 40 starts the reload loop, then
  line 49 enters the callback. In the loop of \<^verbatim>\<open>listenAndServe\<close>, one pass registers
  the deferred \<^verbatim>\<open>Close\<close>, starts the serve goroutine (whose log line is written here)
  and then waits on \<^verbatim>\<open>reloadServe\<close>.
\<close>

definition main_step :: "state \<Rightarrow> state option" where
  "main_step s =
     (case mpc s of
        M_Go \<Rightarrow> Some (s\<lparr>cpc := C_Clear, mpc := M_Call\<rparr>)
      | M_Call \<Rightarrow> Some (emit (E_Invoke T_Main) (s\<lparr>mpc := M_InCallback\<rparr>))
      | M_Spawn l \<Rightarrow>
          Some (emit (E_Spawn l (Handler s))
                 (println (''Listening and serving '' @ listen_addr (Addr s) @ '' ...'')
                   (s\<lparr>deferred := l # deferred s, serving := serving s @ [l],
                      mpc := M_Recv l\<rparr>)))
      | M_Recv l \<Rightarrow>
          (case chan_recv (reloadServe s) of
             None \<Rightarrow> None
           | Some (v, rest) \<Rightarrow> Some (emit E_Resume (s\<lparr>reloadServe := rest, mpc := M_Spawn l\<rparr>)))
      | _ \<Rightarrow> None)"

text \<open>
  Lines 63 to 66: \<^verbatim>\<open>net.Listen\<close> answers; on an error the function returns it, which
  runs the deferred calls registered so far.
\<close>

definition listen_step :: "listen_result \<Rightarrow> state \<Rightarrow> state option" where
  "listen_step r s =
     (case mpc s of
        M_Listen \<Rightarrow>
          (case r of
             ListenErr e \<Rightarrow>
               Some (emit (E_Listen (listen_addr (Addr s)) r)
                      (s\<lparr>closed := closed s @ deferred s, deferred := [], mpc := M_Returned e\<rparr>))
           | ListenOk l \<Rightarrow>
               Some (emit (E_Listen (listen_addr (Addr s)) r) (s\<lparr>mpc := M_Spawn l\<rparr>)))
      | _ \<Rightarrow> None)"

subsection \<open>The reload loop\<close>

definition coord_step :: "state \<Rightarrow> state option" where
  "coord_step s =
     (case cpc s of
        C_Clear \<Rightarrow> Some (emit E_Clear (set_Handler None (s\<lparr>cpc := C_Call\<rparr>)))
      | C_Call \<Rightarrow> Some (emit (E_Invoke T_Coord) (s\<lparr>cpc := C_InCallback\<rparr>))
      | C_Send \<Rightarrow>
          (case chan_send () (reloadServe s) of
             None \<Rightarrow> None
           | Some buf \<Rightarrow> Some (emit E_Signal (s\<lparr>reloadServe := buf, cpc := C_Clear\<rparr>)))
      | _ \<Rightarrow> None)"

subsection \<open>The callback\<close>

text \<open>
  \<^verbatim>\<open>reloadFunc\<close> is given by the caller. While a goroutine is inside it, the callback
  may install a handler with \<^verbatim>\<open>ws.Handler(h)\<close>, receive from the exported channel
  \<^verbatim>\<open>ws.ReloadFile\<close>, or return; it may also stay inside for ever.
\<close>

definition in_callback :: "thread \<Rightarrow> state \<Rightarrow> bool" where
  "in_callback t s =
     (case t of T_Main \<Rightarrow> mpc s = M_InCallback | T_Coord \<Rightarrow> cpc s = C_InCallback)"

datatype cb_stmt = Cb_Install handler | Cb_Recv | Cb_Return

definition reloadFunc_step :: "thread \<Rightarrow> cb_stmt \<Rightarrow> state \<Rightarrow> state option" where
  "reloadFunc_step t c s =
     (if \<not> in_callback t s then None
      else case c of
        Cb_Install h \<Rightarrow> Some (emit (E_Install t h) (set_Handler (Some h) s))
      | Cb_Recv \<Rightarrow>
          (case chan_recv (ReloadFile s) of
             None \<Rightarrow> None
           | Some (v, rest) \<Rightarrow> Some (emit (E_FileRecv t v) (s\<lparr>ReloadFile := rest\<rparr>)))
      | Cb_Return \<Rightarrow>
          Some (emit (E_Return t)
                 (case t of T_Main \<Rightarrow> s\<lparr>mpc := M_Listen\<rparr> | T_Coord \<Rightarrow> s\<lparr>cpc := C_Send\<rparr>)))"

subsection \<open>\<^verbatim>\<open>watchFile\<close>\<close>

text \<open>One pass of the \<^verbatim>\<open>select\<close> on a message of the watcher (lines 83 to 90).\<close>

definition watchFile_select :: "watcher_msg \<Rightarrow> state \<Rightarrow> state option" where
  "watchFile_select m s =
     (case wpc s of
        W_Select \<Rightarrow>
          (case m of
             Event op name \<Rightarrow>
               (if op AND Write = Write
                then Some (emit (E_Write name)
                            (println ''Reloading the file...'' (s\<lparr>wpc := W_Send name\<rparr>)))
                else Some s)
           | Error e \<Rightarrow> Some (println (''Watcher Error: '' @ e) s))
      | _ \<Rightarrow> None)"

text \<open>Line 86: the send blocks while the buffer is full.\<close>

definition watchFile_send :: "state \<Rightarrow> state option" where
  "watchFile_send s =
     (case wpc s of
        W_Send name \<Rightarrow>
          (case chan_send name (ReloadFile s) of
             None \<Rightarrow> None
           | Some buf \<Rightarrow> Some (emit (E_Change name) (s\<lparr>ReloadFile := buf, wpc := W_Select\<rparr>)))
      | _ \<Rightarrow> None)"

subsection \<open>Serve goroutines\<close>

text \<open>
  A running \<^verbatim>\<open>ws.Serve(l)\<close> accepts a connection and dispatches a request; the
  handler is read from the server at that moment.
\<close>

definition serve_step :: "nat \<Rightarrow> state \<Rightarrow> state option" where
  "serve_step k s = (if k < length (serving s) then Some (emit (E_Serve k (Handler s)) s) else None)"

subsection \<open>Interleaving\<close>

datatype action =
    Call string                 \<comment> \<open>the caller invokes \<^verbatim>\<open>ws.ListenAndServe(address, reloadFunc)\<close>\<close>
  | Main                        \<comment> \<open>the calling goroutine runs its next statement\<close>
  | Listen listen_result        \<comment> \<open>\<^verbatim>\<open>net.Listen\<close> returns\<close>
  | Coord                       \<comment> \<open>the reload loop runs its next statement\<close>
  | Callback thread cb_stmt     \<comment> \<open>the callback running in this goroutine runs a statement\<close>
  | Watch watcher_msg           \<comment> \<open>the \<^verbatim>\<open>select\<close> of \<^verbatim>\<open>watchFile\<close> receives a message\<close>
  | Deliver                     \<comment> \<open>the send of \<^verbatim>\<open>watchFile\<close> goes through\<close>
  | Request nat                 \<comment> \<open>serve goroutine \<open>k\<close> handles a request\<close>

fun step :: "state \<Rightarrow> action \<Rightarrow> state option" where
  "step s (Call address) = ListenAndServe_call address s"
| "step s Main = main_step s"
| "step s (Listen r) = listen_step r s"
| "step s Coord = coord_step s"
| "step s (Callback t c) = reloadFunc_step t c s"
| "step s (Watch m) = watchFile_select m s"
| "step s Deliver = watchFile_send s"
| "step s (Request k) = serve_step k s"

fun run :: "state \<Rightarrow> action list \<Rightarrow> state option" where
  "run s [] = Some s"
| "run s (a # as) = (case step s a of None \<Rightarrow> None | Some s' \<Rightarrow> run s' as)"

subsection \<open>Reading the history\<close>

text \<open>Projections of the history, each keeping the order of the events.\<close>

fun call_of :: "event \<Rightarrow> string list" where
  "call_of (E_Call a) = [a]"
| "call_of _ = []"

definition calls :: "event list \<Rightarrow> string list" where
  "calls t = concat (map call_of t)"

fun listen_of :: "event \<Rightarrow> (string \<times> listen_result) list" where
  "listen_of (E_Listen a r) = [(a, r)]"
| "listen_of _ = []"

definition listens :: "event list \<Rightarrow> (string \<times> listen_result) list" where
  "listens t = concat (map listen_of t)"

fun spawn_of :: "event \<Rightarrow> listener list" where
  "spawn_of (E_Spawn l h) = [l]"
| "spawn_of _ = []"

definition spawns :: "event list \<Rightarrow> listener list" where
  "spawns t = concat (map spawn_of t)"

fun is_spawn :: "event \<Rightarrow> bool" where
  "is_spawn (E_Spawn l h) = True"
| "is_spawn _ = False"

fun write_of :: "event \<Rightarrow> string list" where
  "write_of (E_Write n) = [n]"
| "write_of _ = []"

definition writes :: "event list \<Rightarrow> string list" where
  "writes t = concat (map write_of t)"

fun change_of :: "event \<Rightarrow> string list" where
  "change_of (E_Change n) = [n]"
| "change_of _ = []"

definition changes :: "event list \<Rightarrow> string list" where
  "changes t = concat (map change_of t)"

fun filerecv_of :: "event \<Rightarrow> string list" where
  "filerecv_of (E_FileRecv t n) = [n]"
| "filerecv_of _ = []"

definition filerecvs :: "event list \<Rightarrow> string list" where
  "filerecvs t = concat (map filerecv_of t)"

text \<open>The events of the reload loop itself (not those of the callback it runs).\<close>

fun is_coord :: "event \<Rightarrow> bool" where
  "is_coord E_Clear = True"
| "is_coord (E_Invoke T_Coord) = True"
| "is_coord (E_Return T_Coord) = True"
| "is_coord E_Signal = True"
| "is_coord _ = False"

definition coord_events :: "event list \<Rightarrow> event list" where
  "coord_events t = filter is_coord t"

text \<open>The order the specification gives for one pass of the reload loop: clear, invoke the
  callback, the callback returns, signal. \<open>cycle n\<close> is the first \<open>n\<close> events of
  that order repeated for ever.\<close>

definition phase_event :: "nat \<Rightarrow> event" where
  "phase_event k =
     (if k = 0 then E_Clear
      else if k = 1 then E_Invoke T_Coord
      else if k = 2 then E_Return T_Coord
      else E_Signal)"

primrec cycle :: "nat \<Rightarrow> event list" where
  "cycle 0 = []"
| "cycle (Suc n) = cycle n @ [phase_event (n mod 4)]"

text \<open>The name a blocked \<^verbatim>\<open>watchFile\<close> holds in its send statement.\<close>

definition pending :: "watch_pc \<Rightarrow> string list" where
  "pending p = (case p of W_Send name \<Rightarrow> [name] | W_Select \<Rightarrow> [])"

text \<open>Whether \<^verbatim>\<open>ListenAndServe\<close> has returned.\<close>

definition returned :: "state \<Rightarrow> bool" where
  "returned s = (case mpc s of M_Returned e \<Rightarrow> True | _ \<Rightarrow> False)"


subsection \<open>Invariants of the interleaving\<close>

text \<open>The listener the loop of \<^verbatim>\<open>listenAndServe\<close> holds in its variable \<^verbatim>\<open>l\<close>.\<close>

definition bound_listener :: "main_pc \<Rightarrow> listener list" where
  "bound_listener p = (case p of M_Spawn l \<Rightarrow> [l] | M_Recv l \<Rightarrow> [l] | _ \<Rightarrow> [])"

text \<open>The calls of \<^verbatim>\<open>net.Listen\<close> that fit the place the calling goroutine is at: none
  before line 63, one successful call inside the loop, one failed call after the return.\<close>

definition bind_history :: "state \<Rightarrow> (string \<times> listen_result) list" where
  "bind_history s =
     (case mpc s of
        M_Spawn l \<Rightarrow> [(listen_addr (Addr s), ListenOk l)]
      | M_Recv l \<Rightarrow> [(listen_addr (Addr s), ListenOk l)]
      | M_Returned e \<Rightarrow> [(listen_addr (Addr s), ListenErr e)]
      | _ \<Rightarrow> [])"

definition main_inv :: "state \<Rightarrow> bool" where
  "main_inv s =
     (calls (trace s) = (if mpc s = M_Idle then [] else [Addr s]) \<and>
      listens (trace s) = bind_history s \<and>
      serving s = spawns (trace s) \<and>
      set (spawns (trace s)) \<subseteq> set (bound_listener (mpc s)) \<and>
      set (deferred s) \<subseteq> set (bound_listener (mpc s)) \<and>
      closed s = [] \<and>
      (cpc s = C_Idle) = (mpc s = M_Idle \<or> mpc s = M_Go))"

text \<open>How far each goroutine is: the number of its events so far, by its place.\<close>

definition main_calls :: "main_pc \<Rightarrow> nat \<times> nat" where
  "main_calls p =
     (case p of M_Idle \<Rightarrow> (0, 0) | M_Go \<Rightarrow> (0, 0) | M_Call \<Rightarrow> (0, 0)
      | M_InCallback \<Rightarrow> (1, 0) | _ \<Rightarrow> (1, 1))"

definition coord_ahead :: "coord_pc \<Rightarrow> nat \<times> nat \<times> nat" where
  "coord_ahead p =
     (case p of C_Idle \<Rightarrow> (0, 0, 0) | C_Clear \<Rightarrow> (0, 0, 0) | C_Call \<Rightarrow> (1, 0, 0)
      | C_InCallback \<Rightarrow> (1, 1, 0) | C_Send \<Rightarrow> (1, 1, 1))"

definition sync_inv :: "state \<Rightarrow> bool" where
  "sync_inv s =
     (let t = trace s; n = count_list t E_Signal in
      n = count_list t E_Resume + length (reloadServe s) \<and>
      length (reloadServe s) \<le> 1 \<and>
      (count_list t E_Clear, count_list t (E_Invoke T_Coord), count_list t (E_Return T_Coord))
        = (case coord_ahead (cpc s) of (a, b, c) \<Rightarrow> (n + a, n + b, n + c)) \<and>
      (count_list t (E_Invoke T_Main), count_list t (E_Return T_Main)) = main_calls (mpc s) \<and>
      length (spawns t) =
        count_list t E_Resume + (case mpc s of M_Recv l \<Rightarrow> 1 | _ \<Rightarrow> 0) \<and>
      (bound_listener (mpc s) = [] \<longrightarrow> count_list t E_Resume = 0 \<and> spawns t = []))"

definition fifo_inv :: "string \<Rightarrow> state \<Rightarrow> bool" where
  "fifo_inv filename s =
     (filename # changes (trace s) = filerecvs (trace s) @ ReloadFile s \<and>
      writes (trace s) = changes (trace s) @ pending (wpc s) \<and>
      length (ReloadFile s) \<le> 1)"

definition phase :: "coord_pc \<Rightarrow> nat" where
  "phase p = (case p of C_Idle \<Rightarrow> 0 | C_Clear \<Rightarrow> 0 | C_Call \<Rightarrow> 1 | C_InCallback \<Rightarrow> 2 | C_Send \<Rightarrow> 3)"

definition cycle_inv :: "state \<Rightarrow> bool" where
  "cycle_inv s =
     (coord_events (trace s) = cycle (length (coord_events (trace s))) \<and>
      length (coord_events (trace s)) mod 4 = phase (cpc s))"

definition inv :: "string \<Rightarrow> state \<Rightarrow> bool" where
  "inv filename s = (main_inv s \<and> sync_inv s \<and> fifo_inv filename s \<and> cycle_inv s)"



section \<open>Every transition, by cases\<close>

lemma run_invariant:
  assumes "run s0 as = Some s" and "P s0"
    and "\<And>s a s'. P s \<Longrightarrow> step s a = Some s' \<Longrightarrow> P s'"
  shows "P s"
  using assms(1,2)
proof (induction as arbitrary: s0)
  case Nil
  then show ?case by simp
next
  case (Cons a as)
  then obtain s1 where s1: "step s0 a = Some s1" and r: "run s1 as = Some s"
    by (auto split: option.splits)
  from assms(3)[OF Cons.prems(2) s1] have "P s1" .
  from Cons.IH[OF r this] show ?case .
qed

lemma run_append:
  "run s (as @ bs) = (case run s as of None \<Rightarrow> None | Some s' \<Rightarrow> run s' bs)"
  by (induction as arbitrary: s) (auto split: option.splits)

lemma call_cases:
  assumes "ListenAndServe_call address s = Some s'"
  obtains "mpc s = M_Idle"
    "s' = s\<lparr>Addr := address, mpc := M_Go, trace := trace s @ [E_Call address]\<rparr>"
  using assms unfolding ListenAndServe_call_def emit_def
  by (cases "mpc s"; simp)

lemma main_step_cases:
  assumes "main_step s = Some s'"
  obtains
    (Go) "mpc s = M_Go" "s' = s\<lparr>cpc := C_Clear, mpc := M_Call\<rparr>"
  | (Invoke) "mpc s = M_Call"
      "s' = s\<lparr>mpc := M_InCallback, trace := trace s @ [E_Invoke T_Main]\<rparr>"
  | (Spawn) l where "mpc s = M_Spawn l"
      "s' = s\<lparr>deferred := l # deferred s, serving := serving s @ [l], mpc := M_Recv l,
               logs := logs s @ [''Listening and serving '' @ listen_addr (Addr s) @ '' ...''],
               trace := trace s @ [E_Spawn l (Handler s)]\<rparr>"
  | (Resume) l rest where "mpc s = M_Recv l" "reloadServe s = () # rest"
      "s' = s\<lparr>reloadServe := rest, mpc := M_Spawn l, trace := trace s @ [E_Resume]\<rparr>"
  using assms unfolding main_step_def chan_recv_def emit_def println_def
  by (cases "mpc s"; cases "reloadServe s"; simp)

lemma listen_step_cases:
  assumes "listen_step r s = Some s'"
  obtains
    (Fail) e where "mpc s = M_Listen" "r = ListenErr e"
      "s' = s\<lparr>closed := closed s @ deferred s, deferred := [], mpc := M_Returned e,
               trace := trace s @ [E_Listen (listen_addr (Addr s)) (ListenErr e)]\<rparr>"
  | (Bound) l where "mpc s = M_Listen" "r = ListenOk l"
      "s' = s\<lparr>mpc := M_Spawn l,
               trace := trace s @ [E_Listen (listen_addr (Addr s)) (ListenOk l)]\<rparr>"
  using assms unfolding listen_step_def emit_def
  by (cases "mpc s"; cases r; simp)

lemma coord_step_cases:
  assumes "coord_step s = Some s'"
  obtains
    (Clear) "cpc s = C_Clear"
      "s' = s\<lparr>cpc := C_Call, Handler := None, trace := trace s @ [E_Clear]\<rparr>"
  | (Invoke) "cpc s = C_Call"
      "s' = s\<lparr>cpc := C_InCallback, trace := trace s @ [E_Invoke T_Coord]\<rparr>"
  | (Signal) "cpc s = C_Send" "reloadServe s = []"
      "s' = s\<lparr>reloadServe := [()], cpc := C_Clear, trace := trace s @ [E_Signal]\<rparr>"
  using assms unfolding coord_step_def chan_send_def chan_cap_def emit_def set_Handler_def
  by (cases "cpc s"; cases "reloadServe s"; simp)

lemma reloadFunc_step_cases:
  assumes "reloadFunc_step t c s = Some s'"
  obtains
    (Install) h where "in_callback t s" "c = Cb_Install h"
      "s' = s\<lparr>Handler := Some h, trace := trace s @ [E_Install t h]\<rparr>"
  | (Recv) v rest where "in_callback t s" "c = Cb_Recv" "ReloadFile s = v # rest"
      "s' = s\<lparr>ReloadFile := rest, trace := trace s @ [E_FileRecv t v]\<rparr>"
  | (ReturnMain) "t = T_Main" "mpc s = M_InCallback" "c = Cb_Return"
      "s' = s\<lparr>mpc := M_Listen, trace := trace s @ [E_Return T_Main]\<rparr>"
  | (ReturnCoord) "t = T_Coord" "cpc s = C_InCallback" "c = Cb_Return"
      "s' = s\<lparr>cpc := C_Send, trace := trace s @ [E_Return T_Coord]\<rparr>"
  using assms unfolding reloadFunc_step_def chan_recv_def emit_def set_Handler_def
  by (cases "in_callback t s"; cases c; cases t; cases "ReloadFile s"; simp add: in_callback_def)

lemma watchFile_select_cases:
  assumes "watchFile_select m s = Some s'"
  obtains
    (Write) op name where "wpc s = W_Select" "m = Event op name" "op AND Write = Write"
      "s' = s\<lparr>wpc := W_Send name, logs := logs s @ [''Reloading the file...''],
               trace := trace s @ [E_Write name]\<rparr>"
  | (Other) op name where "wpc s = W_Select" "m = Event op name" "op AND Write \<noteq> Write" "s' = s"
  | (Error) e where "wpc s = W_Select" "m = Error e"
      "s' = s\<lparr>logs := logs s @ [''Watcher Error: '' @ e]\<rparr>"
  using assms unfolding watchFile_select_def emit_def println_def
  by (cases "wpc s"; cases m; simp split: if_splits)

lemma watchFile_send_cases:
  assumes "watchFile_send s = Some s'"
  obtains
    (Sent) name where "wpc s = W_Send name" "ReloadFile s = []"
      "s' = s\<lparr>ReloadFile := [name], wpc := W_Select, trace := trace s @ [E_Change name]\<rparr>"
  using assms unfolding watchFile_send_def chan_send_def chan_cap_def emit_def
  by (cases "wpc s"; cases "ReloadFile s"; simp)

lemma serve_step_cases:
  assumes "serve_step k s = Some s'"
  obtains "k < length (serving s)" "s' = s\<lparr>trace := trace s @ [E_Serve k (Handler s)]\<rparr>"
  using assms unfolding serve_step_def emit_def
  by (simp split: if_splits)

lemma step_cases [consumes 1, case_names Call Go InvokeMain Spawn Resume ListenFail ListenOk
    Clear InvokeCoord Signal Install Recv ReturnMain ReturnCoord Write Other Error Sent Serve]:
  assumes "step s a = Some s'"
  obtains
    (Call) address where "mpc s = M_Idle"
      "s' = s\<lparr>Addr := address, mpc := M_Go, trace := trace s @ [E_Call address]\<rparr>"
  | (Go) "mpc s = M_Go" "s' = s\<lparr>cpc := C_Clear, mpc := M_Call\<rparr>"
  | (InvokeMain) "mpc s = M_Call"
      "s' = s\<lparr>mpc := M_InCallback, trace := trace s @ [E_Invoke T_Main]\<rparr>"
  | (Spawn) l where "mpc s = M_Spawn l"
      "s' = s\<lparr>deferred := l # deferred s, serving := serving s @ [l], mpc := M_Recv l,
               logs := logs s @ [''Listening and serving '' @ listen_addr (Addr s) @ '' ...''],
               trace := trace s @ [E_Spawn l (Handler s)]\<rparr>"
  | (Resume) l rest where "mpc s = M_Recv l" "reloadServe s = () # rest"
      "s' = s\<lparr>reloadServe := rest, mpc := M_Spawn l, trace := trace s @ [E_Resume]\<rparr>"
  | (ListenFail) e where "mpc s = M_Listen"
      "s' = s\<lparr>closed := closed s @ deferred s, deferred := [], mpc := M_Returned e,
               trace := trace s @ [E_Listen (listen_addr (Addr s)) (ListenErr e)]\<rparr>"
  | (ListenOk) l where "mpc s = M_Listen"
      "s' = s\<lparr>mpc := M_Spawn l,
               trace := trace s @ [E_Listen (listen_addr (Addr s)) (ListenOk l)]\<rparr>"
  | (Clear) "cpc s = C_Clear"
      "s' = s\<lparr>cpc := C_Call, Handler := None, trace := trace s @ [E_Clear]\<rparr>"
  | (InvokeCoord) "cpc s = C_Call"
      "s' = s\<lparr>cpc := C_InCallback, trace := trace s @ [E_Invoke T_Coord]\<rparr>"
  | (Signal) "cpc s = C_Send" "reloadServe s = []"
      "s' = s\<lparr>reloadServe := [()], cpc := C_Clear, trace := trace s @ [E_Signal]\<rparr>"
  | (Install) t h where "in_callback t s"
      "s' = s\<lparr>Handler := Some h, trace := trace s @ [E_Install t h]\<rparr>"
  | (Recv) t v rest where "in_callback t s" "ReloadFile s = v # rest"
      "s' = s\<lparr>ReloadFile := rest, trace := trace s @ [E_FileRecv t v]\<rparr>"
  | (ReturnMain) "mpc s = M_InCallback"
      "s' = s\<lparr>mpc := M_Listen, trace := trace s @ [E_Return T_Main]\<rparr>"
  | (ReturnCoord) "cpc s = C_InCallback"
      "s' = s\<lparr>cpc := C_Send, trace := trace s @ [E_Return T_Coord]\<rparr>"
  | (Write) name where "wpc s = W_Select"
      "s' = s\<lparr>wpc := W_Send name, logs := logs s @ [''Reloading the file...''],
               trace := trace s @ [E_Write name]\<rparr>"
  | (Other) "wpc s = W_Select" "s' = s"
  | (Error) e where "wpc s = W_Select"
      "s' = s\<lparr>logs := logs s @ [''Watcher Error: '' @ e]\<rparr>"
  | (Sent) name where "a = Deliver" "wpc s = W_Send name" "ReloadFile s = []"
      "s' = s\<lparr>ReloadFile := [name], wpc := W_Select, trace := trace s @ [E_Change name]\<rparr>"
  | (Serve) k where "k < length (serving s)"
      "s' = s\<lparr>trace := trace s @ [E_Serve k (Handler s)]\<rparr>"
proof (cases a)
  case (Call address)
  with assms have "ListenAndServe_call address s = Some s'" by simp
  then show ?thesis by (rule call_cases) (rule that(1))
next
  case Main
  with assms have "main_step s = Some s'" by simp
  then show ?thesis
    by (rule main_step_cases) ((rule that(2); assumption), (rule that(3); assumption), (rule that(4); assumption),
       (rule that(5); assumption))
next
  case (Listen r)
  with assms have "listen_step r s = Some s'" by simp
  then show ?thesis
    by (rule listen_step_cases) ((rule that(6); assumption), (rule that(7); assumption))
next
  case Coord
  with assms have "coord_step s = Some s'" by simp
  then show ?thesis
    by (rule coord_step_cases) ((rule that(8); assumption), (rule that(9); assumption), (rule that(10); assumption))
next
  case (Callback t c)
  with assms have "reloadFunc_step t c s = Some s'" by simp
  then show ?thesis
    by (rule reloadFunc_step_cases)
      ((rule that(11); assumption), (rule that(12); assumption), (rule that(13); assumption),
       (rule that(14); assumption))
next
  case (Watch m)
  with assms have "watchFile_select m s = Some s'" by simp
  then show ?thesis
    by (rule watchFile_select_cases)
      ((rule that(15); assumption), (rule that(16); assumption), (rule that(17); assumption))
next
  case Deliver
  with assms have "watchFile_send s = Some s'" by simp
  then show ?thesis by (rule watchFile_send_cases) (rule that(18)[OF Deliver]; assumption)
next
  case (Request k)
  with assms have "serve_step k s = Some s'" by simp
  then show ?thesis by (rule serve_step_cases) (rule that(19); assumption)
qed

lemma New_Inr:
  assumes "New filename we ae = Inr s0"
  shows "s0 = new_server [filename]"
  using assms unfolding New_def chan_send_def chan_cap_def
  by (simp split: option.splits)

lemma New_ok: "New filename None None = Inr (new_server [filename])"
  by (simp add: New_def chan_send_def chan_cap_def)

section \<open>Projections of an extended history\<close>

lemma calls_snoc [simp]: "calls (t @ [e]) = calls t @ call_of e"
  by (simp add: calls_def)

lemma listens_snoc [simp]: "listens (t @ [e]) = listens t @ listen_of e"
  by (simp add: listens_def)

lemma spawns_snoc [simp]: "spawns (t @ [e]) = spawns t @ spawn_of e"
  by (simp add: spawns_def)

lemma writes_snoc [simp]: "writes (t @ [e]) = writes t @ write_of e"
  by (simp add: writes_def)

lemma changes_snoc [simp]: "changes (t @ [e]) = changes t @ change_of e"
  by (simp add: changes_def)

lemma filerecvs_snoc [simp]: "filerecvs (t @ [e]) = filerecvs t @ filerecv_of e"
  by (simp add: filerecvs_def)

lemma coord_events_snoc [simp]:
  "coord_events (t @ [e]) = coord_events t @ (if is_coord e then [e] else [])"
  by (simp add: coord_events_def)

lemma projections_Nil [simp]:
  "calls [] = []" "listens [] = []" "spawns [] = []" "writes [] = []" "changes [] = []"
  "filerecvs [] = []" "coord_events [] = []"
  by (simp_all add: calls_def listens_def spawns_def writes_def changes_def filerecvs_def
      coord_events_def)



section \<open>The invariants hold in every reachable state\<close>

lemma main_inv_step:
  assumes "main_inv s" and "step s a = Some s'"
  shows "main_inv s'"
  using assms(2,1)
  by (cases rule: step_cases)
    (simp_all add: main_inv_def bind_history_def bound_listener_def in_callback_def
      split: main_pc.splits)

lemma sync_inv_step:
  assumes "sync_inv s" and "main_inv s" and "step s a = Some s'"
  shows "sync_inv s'"
  using assms(3,1,2)
  by (cases rule: step_cases)
    (simp_all add: sync_inv_def main_inv_def Let_def coord_ahead_def main_calls_def
      bound_listener_def)

lemma fifo_inv_step:
  assumes "fifo_inv f s" and "step s a = Some s'"
  shows "fifo_inv f s'"
  using assms(2,1)
  by (cases rule: step_cases)
    (auto simp: fifo_inv_def pending_def Cons_eq_append_conv)

lemma cycle_inv_step:
  assumes "cycle_inv s" and "main_inv s" and "step s a = Some s'"
  shows "cycle_inv s'"
  using assms(3,1,2)
  by (cases rule: step_cases)
    (simp_all add: cycle_inv_def main_inv_def phase_def phase_event_def mod_Suc)

lemma inv_step:
  assumes "inv f s" and "step s a = Some s'"
  shows "inv f s'"
  using assms main_inv_step sync_inv_step fifo_inv_step cycle_inv_step
  unfolding inv_def by blast

lemma inv_new_server: "inv f (new_server [f])"
  by (simp add: inv_def main_inv_def sync_inv_def fifo_inv_def cycle_inv_def new_server_def
      bind_history_def bound_listener_def coord_ahead_def main_calls_def pending_def phase_def)

lemma reachable_inv:
  assumes "New f we ae = Inr s0" and "run s0 as = Some s"
  shows "inv f s"
proof -
  from assms(1) have "s0 = new_server [f]" by (rule New_Inr)
  then have "inv f s0" by (simp add: inv_new_server)
  with assms(2) show ?thesis
    by (rule run_invariant) (rule inv_step)
qed

text \<open>A step adds at most one event, so every prefix of a reachable history is the
  history of an earlier reachable state.\<close>

lemma step_trace:
  assumes "step s a = Some s'"
  shows "trace s' = trace s \<or> (\<exists>e. trace s' = trace s @ [e])"
  using assms by (cases rule: step_cases) simp_all

lemma run_snoc:
  "run s (as @ [a]) = (case run s as of None \<Rightarrow> None | Some s' \<Rightarrow> step s' a)"
  by (simp add: run_append split: option.splits)

lemma prefix_reachable:
  assumes "run s0 as = Some s" and "trace s0 = []" and "j \<le> length (trace s)"
  shows "\<exists>bs s1. run s0 bs = Some s1 \<and> trace s1 = take j (trace s)"
  using assms(1,3)
proof (induction as arbitrary: s rule: rev_induct)
  case Nil
  with assms(2) have "run s0 [] = Some s0 \<and> trace s0 = take j (trace s)" by simp
  then show ?case by blast
next
  case (snoc a as)
  from snoc.prems(1) obtain s' where r: "run s0 as = Some s'" and st: "step s' a = Some s"
    by (auto simp: run_snoc split: option.splits)
  show ?case
  proof (cases "j \<le> length (trace s')")
    case True
    from step_trace[OF st] True have "take j (trace s) = take j (trace s')" by auto
    with snoc.IH[OF r True] show ?thesis by simp
  next
    case False
    with step_trace[OF st] snoc.prems(2) have "take j (trace s) = trace s" by auto
    with snoc.prems(1) show ?thesis by metis
  qed
qed

lemma prefix_inv:
  assumes "New f we ae = Inr s0" and "run s0 as = Some s" and "j \<le> length (trace s)"
  shows "\<exists>s1. inv f s1 \<and> trace s1 = take j (trace s)"
proof -
  from New_Inr[OF assms(1)] have "trace s0 = []" by (simp add: new_server_def)
  from prefix_reachable[OF assms(2) this assms(3)]
  obtain bs s1 where "run s0 bs = Some s1" and t: "trace s1 = take j (trace s)" by blast
  with assms(1) have "inv f s1" by (simp add: reachable_inv)
  with t show ?thesis by blast
qed



section \<open>The watch loop\<close>

lemma write_bit: "(op AND Write = Write) = bit op 1" for op :: Op
proof
  assume "op AND Write = Write"
  then have "bit (op AND 2) (1::nat) = bit (2::Op) 1" by (simp add: Write_def)
  then show "bit op 1" by (simp add: bit_and_iff bit_2_iff)
next
  assume b: "bit op 1"
  have "op AND 2 = 2"
  proof (rule bit_eqI)
    fix n
    show "bit (op AND 2) n = bit (2::Op) n"
      using b by (auto simp: bit_and_iff bit_2_iff)
  qed
  then show "op AND Write = Write" by (simp add: Write_def)
qed

lemma other_kinds:
  "Create AND Write \<noteq> Write" "Remove AND Write \<noteq> Write"
  "Rename AND Write \<noteq> Write" "Chmod AND Write \<noteq> Write"
  by (simp_all add: Create_def Write_def Remove_def Rename_def Chmod_def)

lemma errors_run:
  assumes "wpc s = W_Select"
  shows "run s (map (\<lambda>e. Watch (Error e)) es) =
         Some (s\<lparr>logs := logs s @ map (\<lambda>e. ''Watcher Error: '' @ e) es\<rparr>)"
  using assms
proof (induction es arbitrary: s)
  case Nil
  then show ?case by simp
next
  case (Cons e es)
  have "step s (Watch (Error e)) = Some (s\<lparr>logs := logs s @ [''Watcher Error: '' @ e]\<rparr>)"
    using Cons.prems by (simp add: watchFile_select_def println_def)
  moreover have "wpc (s\<lparr>logs := logs s @ [''Watcher Error: '' @ e]\<rparr>) = W_Select"
    using Cons.prems by simp
  ultimately show ?case using Cons.IH[of "s\<lparr>logs := logs s @ [''Watcher Error: '' @ e]\<rparr>"]
    by simp
qed



section \<open>The reload loop\<close>

text \<open>
  C1. In every pass of the reload loop the three steps come in this order: the handler is
  cleared to nil, then the callback is invoked, and the signal is sent to the accept loop
  only after the callback has returned. The events of the loop in any reachable history
  are an initial part of clear, invoke, return, signal, repeated; the clearing step leaves
  the handler nil; and while the callback has not returned the loop has no step of its own.
\<close>

theorem reload_loop_order:
  assumes "New filename we ae = Inr s0" and "run s0 as = Some s"
  shows "coord_events (trace s) = cycle (length (coord_events (trace s))) \<and>
         (cpc s = C_Clear \<longrightarrow> map_option Handler (step s Coord) = Some None) \<and>
         (cpc s = C_InCallback \<longrightarrow> step s Coord = None)"
proof -
  from reachable_inv[OF assms] have "cycle_inv s" by (simp add: inv_def)
  then have "coord_events (trace s) = cycle (length (coord_events (trace s)))"
    by (simp add: cycle_inv_def)
  moreover have "cpc s = C_Clear \<longrightarrow> map_option Handler (step s Coord) = Some None"
    by (simp add: coord_step_def emit_def set_Handler_def)
  moreover have "cpc s = C_InCallback \<longrightarrow> step s Coord = None"
    by (simp add: coord_step_def)
  ultimately show ?thesis by blast
qed

theorem reload_loop_order_witness:
  "New ''/tmp/h.conf'' None None = Inr (new_server [''/tmp/h.conf'']) \<and>
   map_option (coord_events \<circ> trace)
     (run (new_server [''/tmp/h.conf''])
       [Call '':8080'', Main, Coord, Coord, Callback T_Coord Cb_Recv,
        Callback T_Coord (Cb_Install 1), Callback T_Coord Cb_Return, Coord, Coord])
     = Some [E_Clear, E_Invoke T_Coord, E_Return T_Coord, E_Signal, E_Clear]"
proof -
  let ?s0 = "new_server [''/tmp/h.conf'']"
  let ?as = "[Call '':8080'', Main, Coord, Coord, Callback T_Coord Cb_Recv,
        Callback T_Coord (Cb_Install 1), Callback T_Coord Cb_Return, Coord, Coord]"
  have n: "New ''/tmp/h.conf'' None None = Inr ?s0" by (rule New_ok)
  have "map_option (length \<circ> coord_events \<circ> trace) (run ?s0 ?as) = Some 5" by code_simp
  then obtain s where r: "run ?s0 ?as = Some s" and l: "length (coord_events (trace s)) = 5"
    by auto
  from reload_loop_order[OF n r] l have "coord_events (trace s) = cycle 5" by simp
  also have "cycle 5 = [E_Clear, E_Invoke T_Coord, E_Return T_Coord, E_Signal, E_Clear]"
    by code_simp
  finally show ?thesis using n r by simp
qed



section \<open>Rebuild before serve\<close>

text \<open>
  C2, as the code has it. Serve cycle number \<open>i\<close>, counted from 0, is started after the
  initial callback has returned and after \<open>i\<close> passes of the reload loop in which the
  callback returned, the signal was sent and the accept loop received it: at the place of
  a spawn in a reachable history, the spawns before it are no more than the receives, the
  receives no more than the signals, and the signals no more than the returns of the
  loop's callback. Nothing is claimed about the handler a serve cycle then sees.
\<close>

theorem spawn_after_rebuild:
  assumes "New filename we ae = Inr s0" and "run s0 as = Some s"
    and "j < length (trace s)" and "trace s ! j = E_Spawn l h"
  shows "count_list (take j (trace s)) (E_Return T_Main) = 1 \<and>
         length (spawns (take j (trace s))) \<le> count_list (take j (trace s)) E_Resume \<and>
         count_list (take j (trace s)) E_Resume \<le> count_list (take j (trace s)) E_Signal \<and>
         count_list (take j (trace s)) E_Signal
           \<le> count_list (take j (trace s)) (E_Return T_Coord)"
proof -
  let ?t = "take j (trace s)"
  from assms(3) have "Suc j \<le> length (trace s)" by simp
  from prefix_inv[OF assms(1,2) this] obtain s1
    where i: "inv filename s1" and "trace s1 = take (Suc j) (trace s)" by blast
  with assms(3,4) have t: "trace s1 = ?t @ [E_Spawn l h]"
    by (simp add: take_Suc_conv_app_nth)
  from i have m: "main_inv s1" and y: "sync_inv s1" by (simp_all add: inv_def)
  from m t have b: "bound_listener (mpc s1) \<noteq> []" by (auto simp: main_inv_def)
  then have c: "main_calls (mpc s1) = (1, 1)"
    by (cases "mpc s1") (simp_all add: bound_listener_def main_calls_def)
  with y t have 1: "count_list ?t (E_Return T_Main) = 1"
    by (simp add: sync_inv_def Let_def)
  from y t have 2: "length (spawns ?t) \<le> count_list ?t E_Resume"
    by (cases "mpc s1") (simp_all add: sync_inv_def Let_def)
  from y t have 3: "count_list ?t E_Resume \<le> count_list ?t E_Signal"
    by (simp add: sync_inv_def Let_def)
  from y t have 4: "count_list ?t E_Signal \<le> count_list ?t (E_Return T_Coord)"
    by (cases "cpc s1") (simp_all add: sync_inv_def Let_def coord_ahead_def)
  from 1 2 3 4 show ?thesis by blast
qed

theorem spawn_after_rebuild_witness:
  "New ''/tmp/h.conf'' None None = Inr (new_server [''/tmp/h.conf'']) \<and>
   map_option trace
     (run (new_server [''/tmp/h.conf''])
       [Call [], Main, Main, Callback T_Main (Cb_Install 1), Callback T_Main Cb_Return,
        Listen (ListenOk 7), Main, Coord, Coord, Callback T_Coord (Cb_Install 2),
        Callback T_Coord Cb_Return, Coord, Main, Main])
     = Some [E_Call [], E_Invoke T_Main, E_Install T_Main 1, E_Return T_Main,
             E_Listen '':http'' (ListenOk 7), E_Spawn 7 (Some 1), E_Clear, E_Invoke T_Coord,
             E_Install T_Coord 2, E_Return T_Coord, E_Signal, E_Resume, E_Spawn 7 (Some 2)] \<and>
   count_list
     [E_Call [], E_Invoke T_Main, E_Install T_Main 1, E_Return T_Main,
      E_Listen '':http'' (ListenOk 7), E_Spawn 7 (Some 1), E_Clear, E_Invoke T_Coord,
      E_Install T_Coord 2, E_Return T_Coord, E_Signal, E_Resume] (E_Return T_Coord) \<ge> 1"
proof -
  let ?s0 = "new_server [''/tmp/h.conf'']"
  let ?as = "[Call [], Main, Main, Callback T_Main (Cb_Install 1), Callback T_Main Cb_Return,
        Listen (ListenOk 7), Main, Coord, Coord, Callback T_Coord (Cb_Install 2),
        Callback T_Coord Cb_Return, Coord, Main, Main]"
  let ?t = "[E_Call [], E_Invoke T_Main, E_Install T_Main 1, E_Return T_Main,
             E_Listen '':http'' (ListenOk 7), E_Spawn 7 (Some 1), E_Clear, E_Invoke T_Coord,
             E_Install T_Coord 2, E_Return T_Coord, E_Signal, E_Resume]"
  have n: "New ''/tmp/h.conf'' None None = Inr ?s0" by (rule New_ok)
  have "map_option trace (run ?s0 ?as) = Some (?t @ [E_Spawn 7 (Some 2)])"
    by code_simp
  then obtain s where r: "run ?s0 ?as = Some s" and t: "trace s = ?t @ [E_Spawn 7 (Some 2)]"
    by auto
  have j: "12 < length (trace s)" and e: "trace s ! 12 = E_Spawn 7 (Some 2)"
    and k: "take 12 (trace s) = ?t"
    by (simp_all add: t)
  from spawn_after_rebuild[OF n r j e]
  have "length (spawns ?t) \<le> count_list ?t (E_Return T_Coord)"
    unfolding k by linarith
  moreover have "length (spawns ?t) = 1" by (simp add: spawns_def)
  ultimately have "count_list ?t (E_Return T_Coord) \<ge> 1" by simp
  with n r t show ?thesis by simp
qed

text \<open>
  Claim C2 as written fails. The signal is buffered, and right after sending it the reload
  loop clears the handler for the next cycle; the accept loop receives the signal after
  that, starts serve cycle 1 with the handler nil, and a request is served against nil.
\<close>

theorem serve_cycle_sees_nil_handler:
  "map_option trace
     (run (new_server [''/tmp/h.conf''])
       [Call [], Main, Main, Callback T_Main (Cb_Install 1), Callback T_Main Cb_Return,
        Listen (ListenOk 7), Main, Coord, Coord, Callback T_Coord (Cb_Install 2),
        Callback T_Coord Cb_Return, Coord, Coord, Main, Main, Request 1])
     = Some [E_Call [], E_Invoke T_Main, E_Install T_Main 1, E_Return T_Main,
             E_Listen '':http'' (ListenOk 7), E_Spawn 7 (Some 1), E_Clear, E_Invoke T_Coord,
             E_Install T_Coord 2, E_Return T_Coord, E_Signal, E_Clear, E_Resume,
             E_Spawn 7 None, E_Serve 1 None]"
  by code_simp



section \<open>The listening socket\<close>

text \<open>
  C3. Across any number of reload cycles the socket is bound once: there is at most one
  call of \<^verbatim>\<open>net.Listen\<close> in a reachable history, every serve goroutine ever started runs
  on the listener that call returned, and no listener has been closed.
\<close>

theorem single_bind:
  assumes "New filename we ae = Inr s0" and "run s0 as = Some s"
  shows "length (listens (trace s)) \<le> 1 \<and>
         serving s = spawns (trace s) \<and>
         (\<forall>l \<in> set (spawns (trace s)). listens (trace s) = [(listen_addr (Addr s), ListenOk l)]) \<and>
         closed s = []"
proof -
  from reachable_inv[OF assms] have m: "main_inv s" by (simp add: inv_def)
  then have "length (listens (trace s)) \<le> 1"
    by (simp add: main_inv_def bind_history_def split: main_pc.splits)
  moreover from m have "serving s = spawns (trace s)" and "closed s = []"
    by (simp_all add: main_inv_def)
  moreover from m
  have "\<forall>l \<in> set (spawns (trace s)). listens (trace s) = [(listen_addr (Addr s), ListenOk l)]"
    by (cases "mpc s") (auto simp: main_inv_def bind_history_def bound_listener_def)
  ultimately show ?thesis by blast
qed

theorem single_bind_witness:
  "New ''/tmp/h.conf'' None None = Inr (new_server [''/tmp/h.conf'']) \<and>
   map_option (\<lambda>s. (listens (trace s), serving s, closed s))
     (run (new_server [''/tmp/h.conf''])
       [Call [], Main, Main, Callback T_Main (Cb_Install 1), Callback T_Main Cb_Return,
        Listen (ListenOk 7), Main, Coord, Coord, Callback T_Coord (Cb_Install 2),
        Callback T_Coord Cb_Return, Coord, Main, Main, Coord, Coord,
        Callback T_Coord Cb_Return, Coord, Main, Main])
     = Some ([('':http'', ListenOk 7)], [7, 7, 7], [])"
proof -
  let ?s0 = "new_server [''/tmp/h.conf'']"
  let ?as = "[Call [], Main, Main, Callback T_Main (Cb_Install 1), Callback T_Main Cb_Return,
        Listen (ListenOk 7), Main, Coord, Coord, Callback T_Coord (Cb_Install 2),
        Callback T_Coord Cb_Return, Coord, Main, Main, Coord, Coord,
        Callback T_Coord Cb_Return, Coord, Main, Main]"
  have n: "New ''/tmp/h.conf'' None None = Inr ?s0" by (rule New_ok)
  have "map_option (\<lambda>s. (Addr s, spawns (trace s))) (run ?s0 ?as) = Some ([], [7, 7, 7])"
    by code_simp
  then obtain s where r: "run ?s0 ?as = Some s" and a: "Addr s = []"
    and sp: "spawns (trace s) = [7, 7, 7]"
    by auto
  from single_bind[OF n r] a sp
  have "listens (trace s) = [('':http'', ListenOk 7)] \<and> serving s = [7, 7, 7] \<and> closed s = []"
    by (simp add: listen_addr_def)
  with n r show ?thesis by simp
qed



section \<open>The initial rebuild\<close>

text \<open>
  C4, as the code has it. \<^verbatim>\<open>New\<close> invokes nothing. \<^verbatim>\<open>ListenAndServe\<close> invokes the
  callback once on the calling goroutine, whatever \<^verbatim>\<open>ReloadFile\<close> holds, and where the
  first serve cycle is started that invocation has been made and has returned. The reload
  loop is started before it and invokes the callback too: where the first serve cycle is
  started the loop has invoked it at most twice.
\<close>

theorem initial_rebuild:
  assumes "New filename we ae = Inr s0" and "run s0 as = Some s"
  shows "trace s0 = [] \<and>
         count_list (trace s) (E_Invoke T_Main) \<le> 1 \<and>
         (mpc s = M_Call \<longrightarrow>
            step s Main = Some (s\<lparr>mpc := M_InCallback, trace := trace s @ [E_Invoke T_Main]\<rparr>)) \<and>
         (j < length (trace s) \<longrightarrow> is_spawn (trace s ! j) \<longrightarrow>
            count_list (take j (trace s)) (E_Invoke T_Main) = 1 \<and>
            count_list (take j (trace s)) (E_Return T_Main) = 1 \<and>
            (spawns (take j (trace s)) = [] \<longrightarrow>
               count_list (take j (trace s)) (E_Invoke T_Coord) \<le> 2))"
proof -
  from New_Inr[OF assms(1)] have 0: "trace s0 = []" by (simp add: new_server_def)
  from reachable_inv[OF assms] have "sync_inv s" by (simp add: inv_def)
  then have 1: "count_list (trace s) (E_Invoke T_Main) \<le> 1"
    by (cases "mpc s") (simp_all add: sync_inv_def Let_def main_calls_def)
  have 2: "mpc s = M_Call \<longrightarrow>
      step s Main = Some (s\<lparr>mpc := M_InCallback, trace := trace s @ [E_Invoke T_Main]\<rparr>)"
    by (simp add: main_step_def emit_def)
  have 3: "count_list (take j (trace s)) (E_Invoke T_Main) = 1 \<and>
      count_list (take j (trace s)) (E_Return T_Main) = 1 \<and>
      (spawns (take j (trace s)) = [] \<longrightarrow>
         count_list (take j (trace s)) (E_Invoke T_Coord) \<le> 2)"
    if j: "j < length (trace s)" and e: "is_spawn (trace s ! j)"
  proof -
    let ?t = "take j (trace s)"
    from e obtain l h where lh: "trace s ! j = E_Spawn l h"
      by (cases "trace s ! j") simp_all
    from j have "Suc j \<le> length (trace s)" by simp
    from prefix_inv[OF assms this] obtain s1
      where i1: "inv filename s1" and "trace s1 = take (Suc j) (trace s)" by blast
    with j lh have t1: "trace s1 = ?t @ [E_Spawn l h]"
      by (simp add: take_Suc_conv_app_nth)
    from i1 have m1: "main_inv s1" and y1: "sync_inv s1" by (simp_all add: inv_def)
    from m1 t1 have "bound_listener (mpc s1) \<noteq> []" by (auto simp: main_inv_def)
    then have "main_calls (mpc s1) = (1, 1)"
      by (cases "mpc s1") (simp_all add: bound_listener_def main_calls_def)
    with y1 t1 have a: "count_list ?t (E_Invoke T_Main) = 1 \<and> count_list ?t (E_Return T_Main) = 1"
      by (simp add: sync_inv_def Let_def)
    from j have "j \<le> length (trace s)" by simp
    from prefix_inv[OF assms this] obtain s2
      where i2: "inv filename s2" and t2: "trace s2 = ?t" by blast
    from i2 have y2: "sync_inv s2" by (simp add: inv_def)
    have "count_list ?t (E_Invoke T_Coord) \<le> 2" if "spawns ?t = []"
      using y2 t2 that
      by (cases "cpc s2") (simp_all add: sync_inv_def Let_def coord_ahead_def)
    with a show ?thesis by blast
  qed
  from 0 1 2 3 show ?thesis by blast
qed

theorem initial_rebuild_witness:
  "New ''/tmp/h.conf'' None None = Inr (new_server [''/tmp/h.conf'']) \<and>
   map_option trace
     (run (new_server [''/tmp/h.conf''])
       [Call [], Main, Main, Callback T_Main (Cb_Install 1), Callback T_Main Cb_Return,
        Listen (ListenOk 7), Main])
     = Some [E_Call [], E_Invoke T_Main, E_Install T_Main 1, E_Return T_Main,
             E_Listen '':http'' (ListenOk 7), E_Spawn 7 (Some 1)] \<and>
   count_list [E_Call [], E_Invoke T_Main, E_Install T_Main 1, E_Return T_Main,
               E_Listen '':http'' (ListenOk 7)] (E_Return T_Main) = 1"
proof -
  let ?s0 = "new_server [''/tmp/h.conf'']"
  let ?as = "[Call [], Main, Main, Callback T_Main (Cb_Install 1), Callback T_Main Cb_Return,
        Listen (ListenOk 7), Main]"
  let ?t = "[E_Call [], E_Invoke T_Main, E_Install T_Main 1, E_Return T_Main,
             E_Listen '':http'' (ListenOk 7)]"
  have n: "New ''/tmp/h.conf'' None None = Inr ?s0" by (rule New_ok)
  have "map_option trace (run ?s0 ?as) = Some (?t @ [E_Spawn 7 (Some 1)])"
    by code_simp
  then obtain s where r: "run ?s0 ?as = Some s" and t: "trace s = ?t @ [E_Spawn 7 (Some 1)]"
    by auto
  have j: "5 < length (trace s)" and e: "is_spawn (trace s ! 5)" and k: "take 5 (trace s) = ?t"
    by (simp_all add: t)
  from initial_rebuild[OF n r, of 5] j e
  have "count_list ?t (E_Return T_Main) = 1"
    unfolding k by blast
  with n r t show ?thesis by simp
qed

text \<open>
  Claim C4 as written fails: before the first serve cycle is started the callback has been
  invoked three times, twice by the reload loop and once by the calling goroutine.
\<close>

theorem three_invocations_before_serving:
  "map_option trace
     (run (new_server [''/tmp/h.conf''])
       [Call [], Main, Coord, Coord, Callback T_Coord Cb_Return, Coord, Coord, Coord,
        Main, Callback T_Main Cb_Return, Listen (ListenOk 7), Main])
     = Some [E_Call [], E_Clear, E_Invoke T_Coord, E_Return T_Coord, E_Signal, E_Clear,
             E_Invoke T_Coord, E_Invoke T_Main, E_Return T_Main,
             E_Listen '':http'' (ListenOk 7), E_Spawn 7 None]"
  by code_simp



section \<open>The channel of file changes\<close>

text \<open>
  C5, as the code has it. \<^verbatim>\<open>ReloadFile\<close> has capacity 1 and never holds more than one
  name. A write event taken while an earlier entry is still in the channel is not dropped:
  \<^verbatim>\<open>watchFile\<close> blocks in its send, holding the name whatever the other goroutines do,
  and delivers it once the channel is empty. So the file name put in by \<^verbatim>\<open>New\<close>
  followed by the names of all write events taken is what has been received, then what is in
  the channel, then what the blocked loop holds, in this order.
\<close>

theorem changes_not_dropped:
  assumes "New filename we ae = Inr s0" and "run s0 as = Some s"
  shows "length (ReloadFile s) \<le> 1 \<and>
         filename # writes (trace s) = filerecvs (trace s) @ ReloadFile s @ pending (wpc s) \<and>
         (wpc s = W_Send name \<longrightarrow> (step s Deliver = None) = (ReloadFile s \<noteq> [])) \<and>
         (wpc s = W_Send name \<longrightarrow> a \<noteq> Deliver \<longrightarrow> step s a = Some s' \<longrightarrow>
            wpc s' = W_Send name)"
proof -
  from reachable_inv[OF assms] have f: "fifo_inv filename s" by (simp add: inv_def)
  then have 1: "length (ReloadFile s) \<le> 1" by (simp add: fifo_inv_def)
  from f have "filename # writes (trace s) = (filename # changes (trace s)) @ pending (wpc s)"
    by (simp add: fifo_inv_def)
  also from f have "filename # changes (trace s) = filerecvs (trace s) @ ReloadFile s"
    by (simp add: fifo_inv_def)
  finally have 2:
    "filename # writes (trace s) = filerecvs (trace s) @ ReloadFile s @ pending (wpc s)"
    by simp
  have 3: "wpc s = W_Send name \<longrightarrow> (step s Deliver = None) = (ReloadFile s \<noteq> [])"
    by (cases "ReloadFile s") (simp_all add: watchFile_send_def chan_send_def chan_cap_def)
  have 4: "wpc s' = W_Send name"
    if "wpc s = W_Send name" and "a \<noteq> Deliver" and "step s a = Some s'"
    using that(3,1,2) by (cases rule: step_cases) simp_all
  from 1 2 3 4 show ?thesis by blast
qed

theorem changes_not_dropped_witness:
  "New ''/tmp/h.conf'' None None = Inr (new_server [''/tmp/h.conf'']) \<and>
   map_option (\<lambda>s. (writes (trace s), filerecvs (trace s), ReloadFile s, wpc s))
     (run (new_server [''/tmp/h.conf''])
       [Call [], Main, Coord, Coord, Callback T_Coord Cb_Recv,
        Watch (Event Write ''/tmp/h.conf''), Deliver, Watch (Event Write ''/tmp/h.conf'')])
     = Some ([''/tmp/h.conf'', ''/tmp/h.conf''], [''/tmp/h.conf''], [''/tmp/h.conf''],
             W_Send ''/tmp/h.conf'')"
proof -
  let ?s0 = "new_server [''/tmp/h.conf'']"
  let ?as = "[Call [], Main, Coord, Coord, Callback T_Coord Cb_Recv,
        Watch (Event Write ''/tmp/h.conf''), Deliver, Watch (Event Write ''/tmp/h.conf'')]"
  have n: "New ''/tmp/h.conf'' None None = Inr ?s0" by (rule New_ok)
  have "map_option (\<lambda>s. (writes (trace s), ReloadFile s, wpc s)) (run ?s0 ?as)
      = Some ([''/tmp/h.conf'', ''/tmp/h.conf''], [''/tmp/h.conf''], W_Send ''/tmp/h.conf'')"
    by code_simp
  then obtain s where r: "run ?s0 ?as = Some s"
    and w: "writes (trace s) = [''/tmp/h.conf'', ''/tmp/h.conf'']"
    and f: "ReloadFile s = [''/tmp/h.conf'']" and p: "wpc s = W_Send ''/tmp/h.conf''"
    by auto
  from changes_not_dropped[OF n r, of "[]" Deliver s] w f p
  have "filerecvs (trace s) = [''/tmp/h.conf'']" by (simp add: pending_def)
  with n r w f p show ?thesis by simp
qed

text \<open>
  Claim C5 as written fails. Two write events arrive while the goroutine of the reload
  loop is inside its first callback; the first is still in the channel when the second is
  taken. The second is held by the blocked send, and after one reload cycle the callback
  receives it as well: three receives in all, the name put in by \<^verbatim>\<open>New\<close> and both
  changes.
\<close>

theorem second_change_observed:
  "map_option ReloadFile
     (run (new_server [''/tmp/h.conf''])
       [Call [], Main, Main, Callback T_Main Cb_Recv, Callback T_Main (Cb_Install 1),
        Callback T_Main Cb_Return, Listen (ListenOk 7), Main, Coord, Coord,
        Watch (Event Write ''/tmp/h.conf''), Deliver, Watch (Event Write ''/tmp/h.conf'')])
     = Some [''/tmp/h.conf''] \<and>
   map_option wpc
     (run (new_server [''/tmp/h.conf''])
       [Call [], Main, Main, Callback T_Main Cb_Recv, Callback T_Main (Cb_Install 1),
        Callback T_Main Cb_Return, Listen (ListenOk 7), Main, Coord, Coord,
        Watch (Event Write ''/tmp/h.conf''), Deliver, Watch (Event Write ''/tmp/h.conf'')])
     = Some (W_Send ''/tmp/h.conf'') \<and>
   map_option (filerecvs \<circ> trace)
     (run (new_server [''/tmp/h.conf''])
       [Call [], Main, Main, Callback T_Main Cb_Recv, Callback T_Main (Cb_Install 1),
        Callback T_Main Cb_Return, Listen (ListenOk 7), Main, Coord, Coord,
        Watch (Event Write ''/tmp/h.conf''), Deliver, Watch (Event Write ''/tmp/h.conf''),
        Callback T_Coord Cb_Recv, Callback T_Coord (Cb_Install 2), Callback T_Coord Cb_Return,
        Coord, Main, Main, Deliver, Coord, Coord,
        Callback T_Coord Cb_Recv, Callback T_Coord (Cb_Install 3), Callback T_Coord Cb_Return])
     = Some [''/tmp/h.conf'', ''/tmp/h.conf'', ''/tmp/h.conf'']"
  by code_simp



section \<open>The signal to the accept loop\<close>

text \<open>
  C6, as the code has it. The signal carries no data, and \<^verbatim>\<open>reloadServe\<close> is a buffered
  channel of capacity 1, not an unbuffered handshake: the send of the reload loop goes
  through whenever the buffer is empty, wherever the accept loop is, and blocks only while
  an earlier signal is unconsumed; the receive of the accept loop blocks only while the
  buffer is empty. The signals sent are those received and the one, at most, in the buffer.
\<close>

theorem signal_buffered:
  assumes "New filename we ae = Inr s0" and "run s0 as = Some s"
  shows "length (reloadServe s) \<le> 1 \<and>
         count_list (trace s) E_Signal = count_list (trace s) E_Resume + length (reloadServe s) \<and>
         (cpc s = C_Send \<longrightarrow> (step s Coord = None) = (reloadServe s \<noteq> [])) \<and>
         (mpc s = M_Recv l \<longrightarrow> (step s Main = None) = (reloadServe s = []))"
proof -
  from reachable_inv[OF assms] have "sync_inv s" by (simp add: inv_def)
  then have "length (reloadServe s) \<le> 1"
    and "count_list (trace s) E_Signal = count_list (trace s) E_Resume + length (reloadServe s)"
    by (simp_all add: sync_inv_def Let_def)
  moreover have "cpc s = C_Send \<longrightarrow> (step s Coord = None) = (reloadServe s \<noteq> [])"
    by (cases "reloadServe s") (simp_all add: coord_step_def chan_send_def chan_cap_def)
  moreover have "mpc s = M_Recv l \<longrightarrow> (step s Main = None) = (reloadServe s = [])"
    by (cases "reloadServe s") (simp_all add: main_step_def chan_recv_def)
  ultimately show ?thesis by blast
qed

theorem signal_buffered_witness:
  "New ''/tmp/h.conf'' None None = Inr (new_server [''/tmp/h.conf'']) \<and>
   map_option (\<lambda>s. (cpc s, reloadServe s, count_list (trace s) E_Signal, step s Coord))
     (run (new_server [''/tmp/h.conf''])
       [Call [], Main, Coord, Coord, Callback T_Coord Cb_Return, Coord,
        Coord, Coord, Callback T_Coord Cb_Return])
     = Some (C_Send, [()], 1, None)"
proof -
  let ?s0 = "new_server [''/tmp/h.conf'']"
  let ?as = "[Call [], Main, Coord, Coord, Callback T_Coord Cb_Return, Coord,
        Coord, Coord, Callback T_Coord Cb_Return]"
  have n: "New ''/tmp/h.conf'' None None = Inr ?s0" by (rule New_ok)
  have "map_option (\<lambda>s. (cpc s, reloadServe s, count_list (trace s) E_Resume)) (run ?s0 ?as)
      = Some (C_Send, [()], 0)"
    by code_simp
  then obtain s where r: "run ?s0 ?as = Some s" and c: "cpc s = C_Send"
    and b: "reloadServe s = [()]" and z: "count_list (trace s) E_Resume = 0"
    by auto
  from signal_buffered[OF n r, of 0] c b z
  have "count_list (trace s) E_Signal = 1 \<and> step s Coord = None" by simp
  with n r c b show ?thesis by simp
qed

text \<open>
  Claim C6 as written fails: the reload loop completes its send, and goes on to clear the
  handler, while the calling goroutine is still at line 49 and has not even bound the
  socket, so no receive has met the send.
\<close>

theorem signal_sent_without_receiver:
  "map_option trace
     (run (new_server [''/tmp/h.conf''])
       [Call [], Main, Coord, Coord, Callback T_Coord Cb_Return, Coord, Coord])
     = Some [E_Call [], E_Clear, E_Invoke T_Coord, E_Return T_Coord, E_Signal, E_Clear] \<and>
   map_option mpc
     (run (new_server [''/tmp/h.conf''])
       [Call [], Main, Coord, Coord, Callback T_Coord Cb_Return, Coord, Coord])
     = Some M_Call \<and>
   map_option reloadServe
     (run (new_server [''/tmp/h.conf''])
       [Call [], Main, Coord, Coord, Callback T_Coord Cb_Return, Coord, Coord])
     = Some [()]"
  by code_simp



section \<open>Binding and returning\<close>

text \<open>
  C7. \<^verbatim>\<open>ListenAndServe\<close> binds the address it was given, \<^verbatim>\<open>":http"\<close> standing in for the
  empty address, and returns an error exactly when the bind fails: the error returned is
  the error of \<^verbatim>\<open>net.Listen\<close>, there is no second call of \<^verbatim>\<open>net.Listen\<close>, no serve
  goroutine exists after a failed bind, a failed bind makes the call return at once, and
  after a successful bind the call has not returned in any reachable state.
\<close>

theorem bind_error_returned:
  assumes "New filename we ae = Inr s0" and "run s0 as = Some s"
  shows "((a, r) \<in> set (listens (trace s)) \<longrightarrow>
            calls (trace s) = [Addr s] \<and> a = (if Addr s = [] then '':http'' else Addr s)) \<and>
         (mpc s = M_Returned e) = (listens (trace s) = [(listen_addr (Addr s), ListenErr e)]) \<and>
         length (listens (trace s)) \<le> 1 \<and>
         (returned s \<longrightarrow> spawns (trace s) = [] \<and> serving s = [] \<and>
            step s Main = None \<and> step s (Listen r) = None) \<and>
         ((a, ListenOk l) \<in> set (listens (trace s)) \<longrightarrow> \<not> returned s) \<and>
         (mpc s = M_Listen \<longrightarrow>
            map_option mpc (step s (Listen (ListenErr e))) = Some (M_Returned e))"
proof -
  from reachable_inv[OF assms] have m: "main_inv s" by (simp add: inv_def)
  have 1: "(a, r) \<in> set (listens (trace s)) \<longrightarrow>
      calls (trace s) = [Addr s] \<and> a = (if Addr s = [] then '':http'' else Addr s)"
    using m by (cases "mpc s") (auto simp: main_inv_def bind_history_def listen_addr_def)
  have 2: "(mpc s = M_Returned e) = (listens (trace s) = [(listen_addr (Addr s), ListenErr e)])"
    using m by (cases "mpc s") (auto simp: main_inv_def bind_history_def)
  have 3: "length (listens (trace s)) \<le> 1"
    using m by (simp add: main_inv_def bind_history_def split: main_pc.splits)
  have 4: "returned s \<longrightarrow> spawns (trace s) = [] \<and> serving s = [] \<and>
      step s Main = None \<and> step s (Listen r) = None"
    using m by (cases "mpc s")
      (auto simp: main_inv_def returned_def bound_listener_def main_step_def listen_step_def)
  have 5: "(a, ListenOk l) \<in> set (listens (trace s)) \<longrightarrow> \<not> returned s"
    using m by (cases "mpc s") (auto simp: main_inv_def bind_history_def returned_def)
  have 6: "mpc s = M_Listen \<longrightarrow>
      map_option mpc (step s (Listen (ListenErr e))) = Some (M_Returned e)"
    by (simp add: listen_step_def emit_def)
  from 1 2 3 4 5 6 show ?thesis by blast
qed

theorem bind_error_returned_witness:
  "New ''/tmp/h.conf'' None None = Inr (new_server [''/tmp/h.conf'']) \<and>
   map_option (\<lambda>s. (mpc s, listens (trace s), serving s))
     (run (new_server [''/tmp/h.conf''])
       [Call [], Main, Main, Callback T_Main Cb_Return, Listen (ListenErr ''address already in use'')])
     = Some (M_Returned ''address already in use'',
             [('':http'', ListenErr ''address already in use'')], [])"
proof -
  let ?s0 = "new_server [''/tmp/h.conf'']"
  let ?as = "[Call [], Main, Main, Callback T_Main Cb_Return,
              Listen (ListenErr ''address already in use'')]"
  have n: "New ''/tmp/h.conf'' None None = Inr ?s0" by (rule New_ok)
  have "map_option (\<lambda>s. (mpc s, Addr s)) (run ?s0 ?as)
      = Some (M_Returned ''address already in use'', [])"
    by code_simp
  then obtain s where r: "run ?s0 ?as = Some s"
    and p: "mpc s = M_Returned ''address already in use''" and a: "Addr s = []"
    by auto
  from p have "returned s" by (simp add: returned_def)
  with bind_error_returned[OF n r, of "'':http''" "ListenErr ''address already in use''"
      "''address already in use''" 0] p a
  have "listens (trace s) = [('':http'', ListenErr ''address already in use'')] \<and> serving s = []"
    by (simp add: listen_addr_def)
  with n r p show ?thesis by simp
qed



section \<open>Errors of the watcher\<close>

text \<open>
  C8. For every error the watcher reports, \<^verbatim>\<open>watchFile\<close> logs it and goes on: after any
  list of errors the loop is back at its \<^verbatim>\<open>select\<close> with nothing changed but the log,
  one line per error, and a write event that follows is taken and its name delivered.
\<close>

theorem watcher_errors_logged:
  assumes "wpc s = W_Select"
  shows "run s (map (\<lambda>e. Watch (Error e)) es) =
           Some (s\<lparr>logs := logs s @ map (\<lambda>e. ''Watcher Error: '' @ e) es\<rparr>) \<and>
         (op AND Write = Write \<longrightarrow>
            map_option wpc (run s (map (\<lambda>e. Watch (Error e)) es @ [Watch (Event op name)]))
              = Some (W_Send name)) \<and>
         (op AND Write = Write \<longrightarrow> ReloadFile s = [] \<longrightarrow>
            map_option ReloadFile
              (run s (map (\<lambda>e. Watch (Error e)) es @ [Watch (Event op name), Deliver]))
              = Some [name])"
proof -
  let ?s' = "s\<lparr>logs := logs s @ map (\<lambda>e. ''Watcher Error: '' @ e) es\<rparr>"
  have e: "run s (map (\<lambda>e. Watch (Error e)) es) = Some ?s'"
    using assms by (rule errors_run)
  have "op AND Write = Write \<longrightarrow>
      map_option wpc (run s (map (\<lambda>e. Watch (Error e)) es @ [Watch (Event op name)]))
        = Some (W_Send name)"
    using assms by (simp add: run_append e watchFile_select_def emit_def println_def)
  moreover have "op AND Write = Write \<longrightarrow> ReloadFile s = [] \<longrightarrow>
      map_option ReloadFile
        (run s (map (\<lambda>e. Watch (Error e)) es @ [Watch (Event op name), Deliver]))
        = Some [name]"
    using assms
    by (simp add: run_append e watchFile_select_def watchFile_send_def emit_def println_def
        chan_send_def chan_cap_def)
  ultimately show ?thesis using e by blast
qed

theorem watcher_errors_logged_witness:
  "wpc (new_server []) = W_Select \<and>
   run (new_server []) (map (\<lambda>e. Watch (Error e)) [''queue overflow'', ''short read''])
     = Some ((new_server [])\<lparr>logs := [''Watcher Error: queue overflow'',
                                       ''Watcher Error: short read'']\<rparr>) \<and>
   map_option ReloadFile
     (run (new_server [])
       (map (\<lambda>e. Watch (Error e)) [''queue overflow'', ''short read'']
          @ [Watch (Event Write ''/tmp/h.conf''), Deliver]))
     = Some [''/tmp/h.conf'']"
proof -
  have w: "wpc (new_server []) = W_Select" by (simp add: new_server_def)
  have b: "Write AND Write = Write" by simp
  have r: "ReloadFile (new_server []) = []" by (simp add: new_server_def)
  have l: "logs (new_server []) = []" by (simp add: new_server_def)
  from watcher_errors_logged[OF w, of "[''queue overflow'', ''short read'']" Write
      "''/tmp/h.conf''"] w b r l
  show ?thesis by simp
qed



section \<open>Which events reload\<close>

text \<open>
  C9. For every event of the watcher, a change is sent on \<^verbatim>\<open>ReloadFile\<close> exactly when the
  event is a write event, that is when its \<^verbatim>\<open>Op\<close> has the \<^verbatim>\<open>Write\<close> bit; what is sent
  is the name in the event; create, remove, rename and chmod events send nothing. In a
  reachable history the names sent are the names of the write events taken, in order, but
  for the one the loop may still be holding.
\<close>

theorem write_events_only:
  assumes "New filename we ae = Inr s0" and "run s0 as = Some s"
  shows "(wpc s = W_Select \<longrightarrow>
            step s (Watch (Event op name)) =
              Some (if op AND Write = Write
                    then s\<lparr>wpc := W_Send name, logs := logs s @ [''Reloading the file...''],
                           trace := trace s @ [E_Write name]\<rparr>
                    else s)) \<and>
         (wpc s = W_Send name \<longrightarrow> ReloadFile s = [] \<longrightarrow>
            step s Deliver =
              Some (s\<lparr>ReloadFile := [name], wpc := W_Select,
                      trace := trace s @ [E_Change name]\<rparr>)) \<and>
         writes (trace s) = changes (trace s) @ pending (wpc s) \<and>
         (op AND Write = Write) = bit op 1 \<and>
         Create AND Write \<noteq> Write \<and> Remove AND Write \<noteq> Write \<and>
         Rename AND Write \<noteq> Write \<and> Chmod AND Write \<noteq> Write"
proof -
  from reachable_inv[OF assms] have "fifo_inv filename s" by (simp add: inv_def)
  then have "writes (trace s) = changes (trace s) @ pending (wpc s)"
    by (simp add: fifo_inv_def)
  moreover have "wpc s = W_Select \<longrightarrow>
      step s (Watch (Event op name)) =
        Some (if op AND Write = Write
              then s\<lparr>wpc := W_Send name, logs := logs s @ [''Reloading the file...''],
                     trace := trace s @ [E_Write name]\<rparr>
              else s)"
    by (simp add: watchFile_select_def emit_def println_def)
  moreover have "wpc s = W_Send name \<longrightarrow> ReloadFile s = [] \<longrightarrow>
      step s Deliver =
        Some (s\<lparr>ReloadFile := [name], wpc := W_Select, trace := trace s @ [E_Change name]\<rparr>)"
    by (simp add: watchFile_send_def emit_def chan_send_def chan_cap_def)
  ultimately show ?thesis
    using write_bit[of op] other_kinds by blast
qed

theorem write_events_only_witness:
  "New ''/tmp/h.conf'' None None = Inr (new_server [''/tmp/h.conf'']) \<and>
   map_option (\<lambda>s. (writes (trace s), changes (trace s), ReloadFile s))
     (run (new_server [''/tmp/h.conf''])
       [Call [], Main, Main, Callback T_Main Cb_Recv,
        Watch (Event Chmod ''/tmp/h.conf''), Watch (Event Rename ''/tmp/h.conf''),
        Watch (Event Write ''/tmp/h.conf''), Deliver])
     = Some ([''/tmp/h.conf''], [''/tmp/h.conf''], [''/tmp/h.conf''])"
proof -
  let ?s0 = "new_server [''/tmp/h.conf'']"
  let ?as = "[Call [], Main, Main, Callback T_Main Cb_Recv,
        Watch (Event Chmod ''/tmp/h.conf''), Watch (Event Rename ''/tmp/h.conf''),
        Watch (Event Write ''/tmp/h.conf''), Deliver]"
  have n: "New ''/tmp/h.conf'' None None = Inr ?s0" by (rule New_ok)
  have "map_option (\<lambda>s. (changes (trace s), wpc s, ReloadFile s)) (run ?s0 ?as)
      = Some ([''/tmp/h.conf''], W_Select, [''/tmp/h.conf''])"
    by code_simp
  then obtain s where r: "run ?s0 ?as = Some s" and c: "changes (trace s) = [''/tmp/h.conf'']"
    and w: "wpc s = W_Select" and f: "ReloadFile s = [''/tmp/h.conf'']"
    by auto
  from write_events_only[OF n r, of 0 "[]"] c w
  have "writes (trace s) = [''/tmp/h.conf'']" by (simp add: pending_def)
  with n r c f show ?thesis by simp
qed



section \<open>The first entry of the channel\<close>

text \<open>
  C10. When \<^verbatim>\<open>New(filename)\<close> has returned, \<^verbatim>\<open>ReloadFile\<close> holds exactly one entry, the
  file name, and it stays so whatever happens until the first receive: that receive, by
  the callback in either goroutine, goes through at once and yields the file name, no
  change of the file being needed.
\<close>

theorem channel_primed:
  assumes "New filename we ae = Inr s0"
  shows "ReloadFile s0 = [filename] \<and> trace s0 = [] \<and>
         chan_recv (ReloadFile s0) = Some (filename, []) \<and>
         (run s0 as = Some s \<longrightarrow> filerecvs (trace s) = [] \<longrightarrow>
            ReloadFile s = [filename] \<and> changes (trace s) = [] \<and>
            (in_callback t s \<longrightarrow>
               step s (Callback t Cb_Recv) =
                 Some (s\<lparr>ReloadFile := [], trace := trace s @ [E_FileRecv t filename]\<rparr>)))"
proof -
  from New_Inr[OF assms] have 0: "ReloadFile s0 = [filename]" "trace s0 = []"
    by (simp_all add: new_server_def)
  then have 1: "chan_recv (ReloadFile s0) = Some (filename, [])"
    by (simp add: chan_recv_def)
  have 2: "ReloadFile s = [filename] \<and> changes (trace s) = [] \<and>
      (in_callback t s \<longrightarrow>
         step s (Callback t Cb_Recv) =
           Some (s\<lparr>ReloadFile := [], trace := trace s @ [E_FileRecv t filename]\<rparr>))"
    if r: "run s0 as = Some s" and e: "filerecvs (trace s) = []"
  proof -
    from reachable_inv[OF assms r] have "fifo_inv filename s" by (simp add: inv_def)
    with e have f: "ReloadFile s = filename # changes (trace s)" and "length (ReloadFile s) \<le> 1"
      by (simp_all add: fifo_inv_def)
    then have c: "changes (trace s) = []" by simp
    with f have "ReloadFile s = [filename]" by simp
    with c show ?thesis
      by (simp add: reloadFunc_step_def chan_recv_def emit_def)
  qed
  from 0 1 2 show ?thesis by blast
qed

theorem channel_primed_witness:
  "New ''/tmp/h.conf'' None None = Inr (new_server [''/tmp/h.conf'']) \<and>
   map_option (\<lambda>s. (ReloadFile s, wpc s))
     (run (new_server [''/tmp/h.conf''])
       [Watch (Event Write ''/tmp/h.conf''), Call [], Main, Coord, Coord])
     = Some ([''/tmp/h.conf''], W_Send ''/tmp/h.conf'') \<and>
   map_option (filerecvs \<circ> trace)
     (run (new_server [''/tmp/h.conf''])
       [Watch (Event Write ''/tmp/h.conf''), Call [], Main, Coord, Coord,
        Callback T_Coord Cb_Recv])
     = Some [''/tmp/h.conf'']"
proof -
  let ?s0 = "new_server [''/tmp/h.conf'']"
  let ?as = "[Watch (Event Write ''/tmp/h.conf''), Call [], Main, Coord, Coord]"
  have n: "New ''/tmp/h.conf'' None None = Inr ?s0" by (rule New_ok)
  have "map_option (\<lambda>s. (filerecvs (trace s), wpc s, cpc s)) (run ?s0 ?as)
      = Some ([], W_Send ''/tmp/h.conf'', C_InCallback)"
    by code_simp
  then obtain s where r: "run ?s0 ?as = Some s" and e: "filerecvs (trace s) = []"
    and w: "wpc s = W_Send ''/tmp/h.conf''" and c: "in_callback T_Coord s"
    by (auto simp: in_callback_def)
  from channel_primed[OF n, of ?as s T_Coord] r e c
  have f: "ReloadFile s = [''/tmp/h.conf'']"
    and st: "step s (Callback T_Coord Cb_Recv) =
      Some (s\<lparr>ReloadFile := [], trace := trace s @ [E_FileRecv T_Coord ''/tmp/h.conf'']\<rparr>)"
    by simp_all
  have "run ?s0 (?as @ [Callback T_Coord Cb_Recv]) =
      Some (s\<lparr>ReloadFile := [], trace := trace s @ [E_FileRecv T_Coord ''/tmp/h.conf'']\<rparr>)"
    using r st by (simp only: run_snoc option.case)
  then have "map_option (filerecvs \<circ> trace) (run ?s0 (?as @ [Callback T_Coord Cb_Recv]))
      = Some [''/tmp/h.conf'']"
    using e by simp
  with n r f w show ?thesis by simp
qed


end
